theory Spec2Isabelle
  imports Main "HOL-Library.Sublist"
begin

section \<open>Data model\<close>

text \<open>
  The sync task engine of \<^verbatim>\<open>syncdbapp.py\<close>: the scan of a source tree
  (\<^verbatim>\<open>scan_source_for_sync\<close> with its local functions \<^verbatim>\<open>should_ignore\<close>,
  \<^verbatim>\<open>walktree\<close> and \<^verbatim>\<open>file_to_sync\<close>), the copy/evict pipeline
  (\<^verbatim>\<open>sync_to_target_and_evict\<close>), the worker (\<^verbatim>\<open>run_task_logic\<close>) and the
  checkbox handler (\<^verbatim>\<open>on_checkbox\<close>).

  Paths are strings. Time stamps (\<^verbatim>\<open>st_mtime\<close>, \<^verbatim>\<open>st_ctime\<close>, the value of
  \<^verbatim>\<open>time.mktime\<close>) are floats in the source; the code only compares them, so they are
  integers here (any linear order would do).
\<close>

type_synonym path = string
type_synonym timestamp = int

datatype py_error = KeyError | ValueError

text \<open>
  One element of a task's \<^verbatim>\<open>ignore\<close> list. The source reads both keys with
  \<^verbatim>\<open>ignore_rule.get(key, [])\<close>, so an absent key is the empty list.
\<close>

record ignore_rule =
  startswith :: "string list"
  endswith :: "string list"

text \<open>
  One element of \<^verbatim>\<open>self.taskConfigs\<close>, a dictionary read from the YAML file. The
  key \<^verbatim>\<open>synced\<close> is the only one the format lets be absent, so it is an option;
  \<^verbatim>\<open>ignore\<close> is read with \<^verbatim>\<open>.get('ignore', [])\<close>.
\<close>

record task_config =
  cfg_label :: string
  cfg_source :: path
  cfg_target :: path
  cfg_name :: string
  cfg_synced :: "string option"
  cfg_ignore :: "ignore_rule list"

text \<open>
  What lies at a path of the source tree, as the scan can observe it:
  what \<^verbatim>\<open>os.lstat\<close> says about an entry (or that it raises), what
  \<^verbatim>\<open>os.listdir\<close> returns for a directory (or that it raises), and what
  \<^verbatim>\<open>os.stat\<close> returns for a regular file (or that it raises).
\<close>

datatype fsnode =
    Dir "(string \<times> fsnode) list"   \<comment> \<open>a directory and its listing, in \<^verbatim>\<open>os.listdir\<close> order\<close>
  | DirUnlistable                   \<comment> \<open>a directory whose \<^verbatim>\<open>os.listdir\<close> raises\<close>
  | Reg timestamp timestamp         \<comment> \<open>a regular file with its \<^verbatim>\<open>st_mtime\<close> and \<^verbatim>\<open>st_ctime\<close>\<close>
  | RegUnstatable                   \<comment> \<open>a regular file whose \<^verbatim>\<open>os.stat\<close> raises\<close>
  | Special                         \<comment> \<open>\<^verbatim>\<open>lstat\<close> says neither directory nor regular file\<close>
  | Unstatable                      \<comment> \<open>an entry whose \<^verbatim>\<open>os.lstat\<close> raises\<close>

text \<open>The calls of \<^verbatim>\<open>logging\<close>, one constructor for each call in the source.\<close>

datatype log_entry =
    WarnSkipping path               \<comment> \<open>"Skipping %s: not a file or directory"\<close>
  | ErrorAccessing path             \<comment> \<open>"Error accessing %s: %s"\<close>
  | DebugFileToSync path            \<comment> \<open>"File to sync: %s"\<close>
  | InfoFound nat                   \<comment> \<open>"Found %d files to (potentially) sync ..."\<close>
  | InfoScanCancelled               \<comment> \<open>"Scan cancelled by user."\<close>
  | InfoSyncCancelled nat nat       \<comment> \<open>"Sync cancelled by user: %d files copied, %d files evicted."\<close>
  | InfoSimMkdir path               \<comment> \<open>"SIMULATED MKDIR for %s"\<close>
  | InfoCopied path path            \<comment> \<open>"Copied %s to %s"\<close>
  | InfoSimCopy path path           \<comment> \<open>"SIMULATED COPY for %s to %s"\<close>
  | InfoEvicted path                \<comment> \<open>"Evicted %s"\<close>
  | InfoSimEvict path               \<comment> \<open>"SIMULATED EVICT for %s"\<close>
  | ErrorEvictFirst path            \<comment> \<open>"Evict error (1st attempt): %s"\<close>
  | ErrorProcessing path            \<comment> \<open>"Error processing %s: %s"\<close>
  | InfoEvictedRetry path           \<comment> \<open>"Evicted retry (2nd attempt) %s"\<close>
  | InfoSimEvictRetry path          \<comment> \<open>"SIMULATED EVICT retry (2nd attempt) for %s"\<close>
  | ErrorEvictRetry path            \<comment> \<open>"Evict retry error (2nd attempt): %s"\<close>
  | ErrorProcessingRetry path       \<comment> \<open>"Error processing eviction retry (2nd attempt) for %s: %s"\<close>
  | InfoSyncCompleted nat nat       \<comment> \<open>"Sync completed: %d files copied, %d files evicted."\<close>


text \<open>The outcome of one call of \<^verbatim>\<open>./cloudfile evict\<close> through \<^verbatim>\<open>subprocess.run\<close>.\<close>

datatype evict_outcome =
    EvictOk                         \<comment> \<open>exit status 0 within the timeout\<close>
  | EvictFailed                     \<comment> \<open>\<^verbatim>\<open>CalledProcessError\<close> or \<^verbatim>\<open>TimeoutExpired\<close>\<close>
  | EvictRaised                     \<comment> \<open>any other exception (the executable is missing, ...)\<close>

text \<open>
  Everything the code asks of the world outside it. The stop flag is written by the GUI
  thread at any moment, so each read of \<^verbatim>\<open>self.stop_requested\<close> by the worker may
  see any value: \<open>stop_requested_at e k\<close> is what the \<open>k\<close>-th read sees (reads are
  counted from 0 in \<open>polls\<close> below). The outcomes of the file operations of the main
  loop are given per iteration (the loop's 1-based \<^verbatim>\<open>index\<close>), those of the retry
  loop per position in \<^verbatim>\<open>evict_retry\<close> (0-based). The library functions
  \<^verbatim>\<open>time.strptime\<close>/\<^verbatim>\<open>time.mktime\<close> and \<^verbatim>\<open>os.path.relpath\<close> are taken as given.
\<close>

record env =
  stop_requested_at :: "nat \<Rightarrow> bool"
  strptime :: "string \<Rightarrow> timestamp option"
    \<comment> \<open>\<^verbatim>\<open>time.mktime(time.strptime(s, "%Y-%m-%d %H:%M:%S"))\<close>; \<open>None\<close>: \<^verbatim>\<open>ValueError\<close>\<close>
  now :: string
    \<comment> \<open>\<^verbatim>\<open>time.strftime("%Y-%m-%d %H:%M:%S", time.localtime())\<close> when the run completes\<close>
  relpath :: "path \<Rightarrow> path \<Rightarrow> path"
    \<comment> \<open>\<^verbatim>\<open>os.path.relpath(path, start)\<close>\<close>
  makedirs_raises :: "nat \<Rightarrow> bool"
    \<comment> \<open>whether \<^verbatim>\<open>os.makedirs\<close> raises in the iteration\<close>
  copy2 :: "nat \<Rightarrow> timestamp option"
    \<comment> \<open>\<^verbatim>\<open>shutil.copy2\<close> in the iteration: \<open>None\<close> when it raises, else the
        modification time the target file has afterwards (the source file's)\<close>
  evict_first :: "nat \<Rightarrow> evict_outcome"
  evict_second :: "nat \<Rightarrow> evict_outcome"

text \<open>
  The state a worker reads and writes for its task, for a \<^verbatim>\<open>task_id\<close> that names a
  task (the launchers pass no other): the slot \<^verbatim>\<open>task_id-1\<close> of
  \<^verbatim>\<open>self.taskFiles\<close>, the target tree (the modification time of each path that
  exists in it), the log, and the number of reads of the stop flag made so far. \<open>visited\<close>
  is a history variable: the directory entries for which the body of the loop of
  \<^verbatim>\<open>walktree\<close> was entered (one per \<^verbatim>\<open>Pulse\<close> sent to the gauge), each with its
  path name, its bare name and what lies there.
\<close>

record world =
  polls :: nat
  taskFiles :: "(path \<times> timestamp) list"
  target_mtime :: "path \<Rightarrow> timestamp option"
  log :: "log_entry list"
  visited :: "(path \<times> string \<times> fsnode) list"

definition logging :: "log_entry \<Rightarrow> world \<Rightarrow> world" where
  "logging entry w = w\<lparr>log := log w @ [entry]\<rparr>"

section \<open>Paths and names\<close>

text \<open>\<^verbatim>\<open>str.lower\<close> on ASCII names.\<close>

definition lower_char :: "char \<Rightarrow> char" where
  "lower_char c =
     (if (65::nat) \<le> of_char c \<and> of_char c \<le> (90::nat) then char_of (of_char c + (32::nat)) else c)"

definition lower :: "string \<Rightarrow> string" where
  "lower s = map lower_char s"

text \<open>\<^verbatim>\<open>os.path.join(a, b)\<close> of \<^verbatim>\<open>posixpath\<close>, for two components.\<close>

definition path_join :: "path \<Rightarrow> path \<Rightarrow> path" where
  "path_join a b =
     (if b \<noteq> [] \<and> hd b = CHR ''/'' then b
      else if a = [] \<or> last a = CHR ''/'' then a @ b
      else a @ ''/'' @ b)"

text \<open>\<^verbatim>\<open>os.path.dirname(p)\<close> of \<^verbatim>\<open>posixpath\<close>.\<close>

definition dirname :: "path \<Rightarrow> path" where
  "dirname p =
     (let head = rev (dropWhile (\<lambda>c. c \<noteq> CHR ''/'') (rev p))
      in if head \<noteq> [] \<and> list_ex (\<lambda>c. c \<noteq> CHR ''/'') head
         then rev (dropWhile (\<lambda>c. c = CHR ''/'') (rev head))
         else head)"

section \<open>The scan\<close>

text \<open>
  \<^verbatim>\<open>should_ignore(filename)\<close>: the rules in order, in each rule the
  \<^verbatim>\<open>startswith\<close> patterns before the \<^verbatim>\<open>endswith\<close> patterns.
\<close>

fun should_ignore :: "ignore_rule list \<Rightarrow> string \<Rightarrow> bool" where
  "should_ignore [] filename = False"
| "should_ignore (ignore_rule # rules) filename =
     (if list_ex (\<lambda>pattern. prefix (lower pattern) (lower filename)) (startswith ignore_rule)
      then True
      else if list_ex (\<lambda>pattern. suffix (lower pattern) (lower filename)) (endswith ignore_rule)
      then True
      else should_ignore rules filename)"

text \<open>
  \<^verbatim>\<open>file_to_sync(filepath)\<close>, the callback, for a file whose \<^verbatim>\<open>os.stat\<close> gave
  \<open>mtime\<close> and \<open>ctime\<close>.
\<close>

definition file_to_sync :: "timestamp \<Rightarrow> path \<Rightarrow> timestamp \<Rightarrow> timestamp \<Rightarrow> world \<Rightarrow> world" where
  "file_to_sync last_run filepath mtime ctime w =
     (if mtime > last_run \<or> ctime > last_run
      then logging (DebugFileToSync filepath) (w\<lparr>taskFiles := taskFiles w @ [(filepath, mtime)]\<rparr>)
      else w)"

text \<open>
  Entering the body of the loop of \<^verbatim>\<open>walktree\<close> for the entry \<open>f\<close> of \<open>topdir\<close>:
  the stop flag has been read (and was not set), and the entry is recorded as visited.
\<close>

definition enter_entry :: "path \<Rightarrow> string \<Rightarrow> fsnode \<Rightarrow> world \<Rightarrow> world" where
  "enter_entry topdir f node w =
     w\<lparr>polls := Suc (polls w), visited := visited w @ [(path_join topdir f, f, node)]\<rparr>"

text \<open>
  \<^verbatim>\<open>walktree(topdir, callback)\<close>. \<open>walktree\<close> is the call for the node that lies at
  \<open>topdir\<close>; \<open>walk_entries\<close> is its \<^verbatim>\<open>for\<close> loop over the rest of the listing. The
  \<^verbatim>\<open>try\<close> encloses the whole loop: an exception of \<^verbatim>\<open>os.listdir\<close>,
  \<^verbatim>\<open>os.lstat\<close> or of the callback's \<^verbatim>\<open>os.stat\<close> is caught by the call of
  \<^verbatim>\<open>walktree\<close> in which it is raised, which logs it under \<open>topdir\<close> and returns
  \<^verbatim>\<open>True\<close>. The first component of the result is the returned boolean.
\<close>

fun walktree :: "env \<Rightarrow> ignore_rule list \<Rightarrow> timestamp \<Rightarrow> path \<Rightarrow> fsnode \<Rightarrow> world \<Rightarrow> bool \<times> world"
and walk_entries ::
  "env \<Rightarrow> ignore_rule list \<Rightarrow> timestamp \<Rightarrow> path \<Rightarrow> (string \<times> fsnode) list \<Rightarrow> world \<Rightarrow> bool \<times> world"
where
  "walktree e rules last_run topdir (Dir entries) w =
     walk_entries e rules last_run topdir entries w"
| "walktree e rules last_run topdir DirUnlistable w = (True, logging (ErrorAccessing topdir) w)"
| "walktree e rules last_run topdir (Reg mtime ctime) w = (True, logging (ErrorAccessing topdir) w)"
| "walktree e rules last_run topdir RegUnstatable w = (True, logging (ErrorAccessing topdir) w)"
| "walktree e rules last_run topdir Special w = (True, logging (ErrorAccessing topdir) w)"
| "walktree e rules last_run topdir Unstatable w = (True, logging (ErrorAccessing topdir) w)"
| "walk_entries e rules last_run topdir [] w = (True, w)"
| "walk_entries e rules last_run topdir ((f, node) # rest) w =
     (if stop_requested_at e (polls w) then (False, w\<lparr>polls := Suc (polls w)\<rparr>)
      else
        let pathname = path_join topdir f;
            w1 = enter_entry topdir f node w
        in case node of
             Unstatable \<Rightarrow> (True, logging (ErrorAccessing topdir) w1)
           | Dir entries \<Rightarrow>
               if should_ignore rules f then walk_entries e rules last_run topdir rest w1
               else (case walktree e rules last_run pathname (Dir entries) w1 of
                       (False, w2) \<Rightarrow> (False, w2)
                     | (True, w2) \<Rightarrow> walk_entries e rules last_run topdir rest w2)
           | DirUnlistable \<Rightarrow>
               if should_ignore rules f then walk_entries e rules last_run topdir rest w1
               else (case walktree e rules last_run pathname DirUnlistable w1 of
                       (False, w2) \<Rightarrow> (False, w2)
                     | (True, w2) \<Rightarrow> walk_entries e rules last_run topdir rest w2)
           | Reg mtime ctime \<Rightarrow>
               if should_ignore rules f then walk_entries e rules last_run topdir rest w1
               else walk_entries e rules last_run topdir rest
                      (file_to_sync last_run pathname mtime ctime w1)
           | RegUnstatable \<Rightarrow>
               if should_ignore rules f then walk_entries e rules last_run topdir rest w1
               else (True, logging (ErrorAccessing topdir) w1)
           | Special \<Rightarrow>
               walk_entries e rules last_run topdir rest (logging (WarnSkipping pathname) w1))"

text \<open>
  \<^verbatim>\<open>scan_source_for_sync(task_id)\<close>, for the node \<open>tree\<close> that lies at the task's source
  directory. \<^verbatim>\<open>self.taskConfigs[task_id-1]['synced']\<close> raises \<^verbatim>\<open>KeyError\<close> when the
  key is absent and \<^verbatim>\<open>time.strptime\<close> raises \<^verbatim>\<open>ValueError\<close> on a string that is
  not of the format; neither is caught, here or in the worker. The candidate list has
  been reset by then.
\<close>

definition scan_source_for_sync ::
  "env \<Rightarrow> task_config \<Rightarrow> fsnode \<Rightarrow> world \<Rightarrow> (py_error \<times> world) + (nat \<times> world)" where
  "scan_source_for_sync e cfg tree w =
     (let w0 = w\<lparr>taskFiles := []\<rparr> in
      case cfg_synced cfg of
        None \<Rightarrow> Inl (KeyError, w0)
      | Some s \<Rightarrow>
          (case strptime e s of
             None \<Rightarrow> Inl (ValueError, w0)
           | Some last_run \<Rightarrow>
               (case walktree e (cfg_ignore cfg) last_run (cfg_source cfg) tree w0 of
                  (True, w1) \<Rightarrow>
                    Inr (length (taskFiles w1), logging (InfoFound (length (taskFiles w1))) w1)
                | (False, w1) \<Rightarrow>
                    Inr (0, logging InfoScanCancelled (w1\<lparr>taskFiles := []\<rparr>)))))"

section \<open>The copy/evict pipeline\<close>

text \<open>
  The stage flags of the frame with the checked state of their three check boxes. A run of
  the worker reads the flags several times; they are taken not to change while a run is
  under way.
\<close>

record stage_flags =
  run_scan :: bool
  run_copy :: bool
  run_evict :: bool
  cbScan :: bool
  cbCopy :: bool
  cbEvict :: bool

text \<open>The local variables of \<^verbatim>\<open>sync_to_target_and_evict\<close>.\<close>

record counters =
  copied_count :: nat
  evicted_count :: nat
  evict_retry :: "path list"

text \<open>
  \<^verbatim>\<open>target_path = os.path.join(target_dir, os.path.relpath(source_path, source_dir))\<close>
\<close>

definition target_path_of :: "env \<Rightarrow> task_config \<Rightarrow> path \<Rightarrow> path" where
  "target_path_of e cfg source_path =
     path_join (cfg_target cfg) (relpath e source_path (cfg_source cfg))"

text \<open>
  \<^verbatim>\<open>not os.path.exists(target_path) or source_mtime > os.path.getmtime(target_path)\<close>:
  \<^verbatim>\<open>getmtime\<close> is only called on a path that exists.
\<close>

definition copy_needed :: "world \<Rightarrow> path \<Rightarrow> timestamp \<Rightarrow> bool" where
  "copy_needed w target_path source_mtime =
     (case target_mtime w target_path of
        None \<Rightarrow> True
      | Some m \<Rightarrow> source_mtime > m)"

text \<open>
  The body of the main loop from \<^verbatim>\<open>copied_count += 1\<close> on, entered after a copy (or
  a simulated one), with the two handlers of the \<^verbatim>\<open>try\<close>: a failed eviction
  (\<^verbatim>\<open>TimeoutExpired\<close>, \<^verbatim>\<open>CalledProcessError\<close>) appends the target path to
  \<^verbatim>\<open>evict_retry\<close>, any other exception is only logged.
\<close>

definition evict_copied ::
  "env \<Rightarrow> stage_flags \<Rightarrow> bool \<Rightarrow> nat \<Rightarrow> path \<Rightarrow> path \<Rightarrow> counters \<times> world \<Rightarrow> counters \<times> world" where
  "evict_copied e flags simsync index source_path target_path cw =
     (case cw of (c, w) \<Rightarrow>
        let c1 = c\<lparr>copied_count := copied_count c + 1\<rparr> in
        if run_evict flags then
          (if \<not> simsync then
             (case evict_first e index of
                EvictOk \<Rightarrow>
                  (c1\<lparr>evicted_count := evicted_count c1 + 1\<rparr>, logging (InfoEvicted target_path) w)
              | EvictFailed \<Rightarrow>
                  (c1\<lparr>evict_retry := evict_retry c1 @ [target_path]\<rparr>,
                   logging (ErrorEvictFirst target_path) w)
              | EvictRaised \<Rightarrow> (c1, logging (ErrorProcessing source_path) w))
           else (c1\<lparr>evicted_count := evicted_count c1 + 1\<rparr>, logging (InfoSimEvict target_path) w))
        else (c1, w))"

text \<open>
  The body of the main loop after the stop check, for the candidate
  \<open>(source_path, source_mtime)\<close> of the iteration \<open>index\<close>. An exception of
  \<^verbatim>\<open>os.makedirs\<close> or \<^verbatim>\<open>shutil.copy2\<close> is caught by the second handler. A copy
  gives the target path the modification time \<^verbatim>\<open>copy2\<close> leaves there.
\<close>

definition process_candidate ::
  "env \<Rightarrow> stage_flags \<Rightarrow> task_config \<Rightarrow> bool \<Rightarrow> nat \<Rightarrow> path \<times> timestamp \<Rightarrow>
     counters \<times> world \<Rightarrow> counters \<times> world" where
  "process_candidate e flags cfg simsync index cand cw =
     (case cand of (source_path, source_mtime) \<Rightarrow>
      case cw of (c, w) \<Rightarrow>
        let target_path = target_path_of e cfg source_path in
        if \<not> simsync \<and> makedirs_raises e index
        then (c, logging (ErrorProcessing source_path) w)
        else
          let w1 = (if simsync then logging (InfoSimMkdir (dirname target_path)) w else w) in
          if copy_needed w1 target_path source_mtime then
            (if \<not> simsync then
               (case copy2 e index of
                  None \<Rightarrow> (c, logging (ErrorProcessing source_path) w1)
                | Some m \<Rightarrow>
                    evict_copied e flags simsync index source_path target_path
                      (c, logging (InfoCopied source_path target_path)
                            (w1\<lparr>target_mtime := (target_mtime w1)(target_path \<mapsto> m)\<rparr>)))
             else
               evict_copied e flags simsync index source_path target_path
                 (c, logging (InfoSimCopy source_path target_path) w1))
          else (c, w1))"

text \<open>
  The main loop over \<^verbatim>\<open>enumerate(self.taskFiles[task_id-1], start=1)\<close>. The first
  component of the result says whether the function returned from inside the loop, on a
  stop request.
\<close>

fun sync_loop ::
  "env \<Rightarrow> stage_flags \<Rightarrow> task_config \<Rightarrow> bool \<Rightarrow> nat \<Rightarrow> (path \<times> timestamp) list \<Rightarrow>
     counters \<times> world \<Rightarrow> bool \<times> counters \<times> world" where
  "sync_loop e flags cfg simsync index [] (c, w) = (False, c, w)"
| "sync_loop e flags cfg simsync index (cand # rest) (c, w) =
     (if stop_requested_at e (polls w)
      then (True, c,
            logging (InfoSyncCancelled (copied_count c) (evicted_count c))
              (w\<lparr>polls := Suc (polls w)\<rparr>))
      else sync_loop e flags cfg simsync (Suc index) rest
             (process_candidate e flags cfg simsync index cand (c, w\<lparr>polls := Suc (polls w)\<rparr>)))"

text \<open>
  The retry loop over \<^verbatim>\<open>evict_retry\<close>; \<open>k\<close> is the position in the list. The loop
  does not read the stop flag.
\<close>

fun retry_loop ::
  "env \<Rightarrow> bool \<Rightarrow> nat \<Rightarrow> path list \<Rightarrow> counters \<times> world \<Rightarrow> counters \<times> world" where
  "retry_loop e simsync k [] (c, w) = (c, w)"
| "retry_loop e simsync k (target_path # rest) (c, w) =
     retry_loop e simsync (Suc k) rest
       (if \<not> simsync then
          (case evict_second e k of
             EvictOk \<Rightarrow>
               (c\<lparr>evicted_count := evicted_count c + 1\<rparr>, logging (InfoEvictedRetry target_path) w)
           | EvictFailed \<Rightarrow> (c, logging (ErrorEvictRetry target_path) w)
           | EvictRaised \<Rightarrow> (c, logging (ErrorProcessingRetry target_path) w))
        else (c\<lparr>evicted_count := evicted_count c + 1\<rparr>, logging (InfoSimEvictRetry target_path) w))"

text \<open>\<^verbatim>\<open>sync_to_target_and_evict(task_id, simsync)\<close>\<close>

definition sync_to_target_and_evict ::
  "env \<Rightarrow> stage_flags \<Rightarrow> task_config \<Rightarrow> bool \<Rightarrow> world \<Rightarrow> (nat \<times> nat) \<times> world" where
  "sync_to_target_and_evict e flags cfg simsync w =
     (if \<not> run_copy flags then ((0, 0), w)
      else
        case sync_loop e flags cfg simsync 1 (taskFiles w)
               (\<lparr>copied_count = 0, evicted_count = 0, evict_retry = []\<rparr>, w) of
          (True, c, w1) \<Rightarrow> ((copied_count c, evicted_count c), w1)
        | (False, c, w1) \<Rightarrow>
            (case retry_loop e simsync 0 (evict_retry c) (c, w1) of
               (c2, w2) \<Rightarrow>
                 ((copied_count c2, evicted_count c2),
                  logging (InfoSyncCompleted (copied_count c2) (evicted_count c2)) w2)))"

section \<open>The worker\<close>



section \<open>The check boxes\<close>

datatype checkbox = CbScan | CbCopy | CbEvict

text \<open>
  \<^verbatim>\<open>on_checkbox(event)\<close> for an event of the check box \<open>cb\<close>; \<^verbatim>\<open>cb.IsChecked()\<close>
  is the state of that widget. \<^verbatim>\<open>SetValue\<close> on another widget sends no event.
\<close>

definition on_checkbox :: "checkbox \<Rightarrow> stage_flags \<Rightarrow> stage_flags" where
  "on_checkbox cb s =
     (case cb of
        CbScan \<Rightarrow>
          (let s1 = s\<lparr>run_scan := cbScan s\<rparr> in
           if \<not> run_scan s1
           then s1\<lparr>run_copy := False, cbCopy := False, run_evict := False, cbEvict := False\<rparr>
           else s1)
      | CbCopy \<Rightarrow>
          (let s1 = s\<lparr>run_copy := cbCopy s\<rparr> in
           if run_copy s1 then s1\<lparr>run_scan := True, cbScan := True\<rparr>
           else s1\<lparr>run_evict := False, cbEvict := False\<rparr>)
      | CbEvict \<Rightarrow>
          (let s1 = s\<lparr>run_evict := cbEvict s\<rparr> in
           if run_evict s1 then s1\<lparr>run_copy := True, cbCopy := True\<rparr>
           else s1))"

text \<open>A click of the user on a check box: the widget toggles, then the handler runs.\<close>

definition click :: "checkbox \<Rightarrow> stage_flags \<Rightarrow> stage_flags" where
  "click cb s =
     on_checkbox cb
       (case cb of
          CbScan \<Rightarrow> s\<lparr>cbScan := \<not> cbScan s\<rparr>
        | CbCopy \<Rightarrow> s\<lparr>cbCopy := \<not> cbCopy s\<rparr>
        | CbEvict \<Rightarrow> s\<lparr>cbEvict := \<not> cbEvict s\<rparr>)"

text \<open>The flags and widgets as \<^verbatim>\<open>__init__\<close> sets them.\<close>

definition initial_flags :: stage_flags where
  "initial_flags =
     \<lparr>run_scan = True, run_copy = True, run_evict = False,
      cbScan = True, cbCopy = True, cbEvict = False\<rparr>"


section \<open>Vocabulary of the properties\<close>

subsection \<open>Reads of the stop flag\<close>

text \<open>
  One of the reads number \<open>p\<close>, ..., \<open>p' - 1\<close> of the stop flag saw it set. A function
  that starts in a state with \<open>polls = p\<close> and ends in one with \<open>polls = p'\<close> has made
  exactly these reads.
\<close>

definition stop_observed :: "env \<Rightarrow> nat \<Rightarrow> nat \<Rightarrow> bool" where
  "stop_observed e p p' = list_ex (stop_requested_at e) [p ..< p']"

subsection \<open>What a scan has visited\<close>

text \<open>
  What the inclusion rule of the scan makes of one visited entry: a regular file that is
  not ignored and whose modification time or metadata-change time is strictly greater
  than the watermark gives one candidate, with its modification time; every other entry
  gives none.
\<close>

definition contributes :: "ignore_rule list \<Rightarrow> timestamp \<Rightarrow> path \<times> string \<times> fsnode \<Rightarrow> (path \<times> timestamp) list" where
  "contributes rules last_run v =
     (case v of (pathname, f, node) \<Rightarrow>
        (case node of
           Reg mtime ctime \<Rightarrow>
             if \<not> should_ignore rules f \<and> (mtime > last_run \<or> ctime > last_run)
             then [(pathname, mtime)] else []
         | _ \<Rightarrow> []))"

definition candidates_of ::
  "ignore_rule list \<Rightarrow> timestamp \<Rightarrow> (path \<times> string \<times> fsnode) list \<Rightarrow> (path \<times> timestamp) list" where
  "candidates_of rules last_run vs = concat (map (contributes rules last_run) vs)"

text \<open>The visited entries that are neither a directory nor a regular file.\<close>

fun is_special :: "path \<times> string \<times> fsnode \<Rightarrow> bool" where
  "is_special (pathname, f, Special) = True"
| "is_special (pathname, f, node) = False"

definition special_entries :: "(path \<times> string \<times> fsnode) list \<Rightarrow> path list" where
  "special_entries vs = map fst (filter is_special vs)"

text \<open>The paths of the warnings "Skipping ...: not a file or directory" of a log.\<close>

fun skipped_path :: "log_entry \<Rightarrow> path list" where
  "skipped_path (WarnSkipping p) = [p]"
| "skipped_path entry = []"

definition skipped :: "log_entry list \<Rightarrow> path list" where
  "skipped entries = concat (map skipped_path entries)"

text \<open>
  How a call of \<open>walktree\<close> (or a part of its loop) relates the state it starts in to its
  result: it returns \<^verbatim>\<open>False\<close> exactly when one of its reads of the stop flag saw it
  set, it leaves the target tree alone, and what it appends to the candidate list and to
  the warnings is determined by the entries it visited.
\<close>

definition walk_rel :: "env \<Rightarrow> ignore_rule list \<Rightarrow> timestamp \<Rightarrow> world \<Rightarrow> bool \<times> world \<Rightarrow> bool" where
  "walk_rel e rules last_run w r =
     (case r of (ok, w') \<Rightarrow>
        polls w \<le> polls w' \<and> ok = (\<not> stop_observed e (polls w) (polls w')) \<and>
        target_mtime w' = target_mtime w \<and>
        (\<exists>vs. visited w' = visited w @ vs \<and>
              taskFiles w' = taskFiles w @ candidates_of rules last_run vs \<and>
              skipped (log w') = skipped (log w) @ special_entries vs))"

subsection \<open>What a run of the pipeline has logged\<close>

text \<open>
  The log entries of a copy, of a successful first eviction, of a failed first eviction
  (with its target path), of the retry loop (with the target path: one entry for each
  attempt of the loop, whatever its outcome) and of a successful retry.
\<close>

fun copy_entry :: "log_entry \<Rightarrow> bool" where
  "copy_entry (InfoCopied source_path target_path) = True"
| "copy_entry (InfoSimCopy source_path target_path) = True"
| "copy_entry entry = False"

fun first_eviction :: "log_entry \<Rightarrow> bool" where
  "first_eviction (InfoEvicted target_path) = True"
| "first_eviction (InfoSimEvict target_path) = True"
| "first_eviction entry = False"

fun first_failure :: "log_entry \<Rightarrow> path list" where
  "first_failure (ErrorEvictFirst target_path) = [target_path]"
| "first_failure entry = []"

fun retry_entry :: "log_entry \<Rightarrow> path list" where
  "retry_entry (InfoEvictedRetry target_path) = [target_path]"
| "retry_entry (InfoSimEvictRetry target_path) = [target_path]"
| "retry_entry (ErrorEvictRetry target_path) = [target_path]"
| "retry_entry (ErrorProcessingRetry target_path) = [target_path]"
| "retry_entry entry = []"

fun retry_eviction :: "log_entry \<Rightarrow> bool" where
  "retry_eviction (InfoEvictedRetry target_path) = True"
| "retry_eviction (InfoSimEvictRetry target_path) = True"
| "retry_eviction entry = False"

definition copies :: "log_entry list \<Rightarrow> nat" where
  "copies entries = length (filter copy_entry entries)"

definition first_evictions :: "log_entry list \<Rightarrow> nat" where
  "first_evictions entries = length (filter first_eviction entries)"

definition first_failures :: "log_entry list \<Rightarrow> path list" where
  "first_failures entries = concat (map first_failure entries)"

definition retried :: "log_entry list \<Rightarrow> path list" where
  "retried entries = concat (map retry_entry entries)"

definition retry_evictions :: "log_entry list \<Rightarrow> nat" where
  "retry_evictions entries = length (filter retry_eviction entries)"

text \<open>
  The evictions counted and those waiting for the retry loop never outnumber the copies
  counted.
\<close>

definition retry_inv :: "counters \<Rightarrow> bool" where
  "retry_inv c = (evicted_count c + length (evict_retry c) \<le> copied_count c)"

text \<open>
  One iteration of the main loop, or several: no read of the stop flag, the candidate list
  unchanged, and the three local variables move with what was logged.
\<close>

definition main_step :: "counters \<times> world \<Rightarrow> counters \<times> world \<Rightarrow> bool" where
  "main_step cw cw' =
     (case cw of (c, w) \<Rightarrow> case cw' of (c', w') \<Rightarrow>
        polls w' = polls w \<and> taskFiles w' = taskFiles w \<and>
        (\<exists>new. log w' = log w @ new \<and>
           copied_count c' = copied_count c + copies new \<and>
           evicted_count c' = evicted_count c + first_evictions new \<and>
           evict_retry c' = evict_retry c @ first_failures new \<and>
           retried new = []))"

text \<open>The main loop over \<open>n\<close> candidates, and the retry loop over \<open>paths\<close>.\<close>

definition loop_rel :: "env \<Rightarrow> nat \<Rightarrow> counters \<times> world \<Rightarrow> bool \<times> counters \<times> world \<Rightarrow> bool" where
  "loop_rel e n cw r =
     (case cw of (c, w) \<Rightarrow> case r of (b, c', w') \<Rightarrow>
        taskFiles w' = taskFiles w \<and> polls w \<le> polls w' \<and>
        b = stop_observed e (polls w) (polls w') \<and>
        (\<not> b \<longrightarrow> polls w' = polls w + n) \<and>
        (\<exists>main. log w' = log w @ main @
                   (if b then [InfoSyncCancelled (copied_count c') (evicted_count c')] else []) \<and>
           copied_count c' = copied_count c + copies main \<and>
           evicted_count c' = evicted_count c + first_evictions main \<and>
           evict_retry c' = evict_retry c @ first_failures main \<and>
           retried main = []))"

definition retry_rel :: "path list \<Rightarrow> counters \<times> world \<Rightarrow> counters \<times> world \<Rightarrow> bool" where
  "retry_rel paths cw cw' =
     (case cw of (c, w) \<Rightarrow> case cw' of (c', w') \<Rightarrow>
        polls w' = polls w \<and> taskFiles w' = taskFiles w \<and> target_mtime w' = target_mtime w \<and>
        copied_count c' = copied_count c \<and>
        (\<exists>retry. log w' = log w @ retry \<and> retried retry = paths \<and> length retry = length paths \<and>
           evicted_count c' = evicted_count c + retry_evictions retry))"

subsection \<open>Runs that leave nothing to copy\<close>



subsection \<open>The watermark\<close>





section \<open>Example inputs\<close>

text \<open>
  A task that mirrors \<^verbatim>\<open>/src\<close> into \<^verbatim>\<open>/dst\<close>, last synced at a time that
  \<^verbatim>\<open>mktime\<close> gives as 100, and an environment in which nothing fails and nobody asks
  to stop; \<^verbatim>\<open>relpath\<close> is right for paths below \<^verbatim>\<open>start\<close>.
\<close>

definition example_cfg :: task_config where
  "example_cfg =
     \<lparr>cfg_label = ''Docs'', cfg_source = ''/src'', cfg_target = ''/dst'', cfg_name = ''Documents'',
      cfg_synced = Some ''2026-01-01 00:00:00'',
      cfg_ignore = [\<lparr>startswith = [''.''], endswith = [''.TMP'']\<rparr>]\<rparr>"

definition example_env :: env where
  "example_env =
     \<lparr>stop_requested_at = (\<lambda>k. False),
      strptime = (\<lambda>s. if s = ''2026-01-01 00:00:00'' then Some 100
                       else if s = ''2026-01-02 00:00:00'' then Some 200 else None),
      now = ''2026-01-02 00:00:00'',
      relpath = (\<lambda>p start. drop (Suc (length start)) p),
      makedirs_raises = (\<lambda>i. False),
      copy2 = (\<lambda>i. Some 150),
      evict_first = (\<lambda>i. EvictOk),
      evict_second = (\<lambda>k. EvictOk)\<rparr>"

definition example_tree :: fsnode where
  "example_tree =
     Dir [(''a.txt'', Reg 150 150), (''old.txt'', Reg 50 50), (''sock'', Special),
          (''sub'', Dir [(''b.txt'', Reg 150 160)]), (''x.tmp'', Reg 170 170)]"

definition empty_world :: world where
  "empty_world = \<lparr>polls = 0, taskFiles = [], target_mtime = (\<lambda>p. None), log = [], visited = []\<rparr>"

text \<open>The state after a scan of \<open>example_tree\<close>, and one with a single candidate.\<close>

definition scanned_world :: world where
  "scanned_world = empty_world\<lparr>taskFiles := [(''/src/a.txt'', 150), (''/src/sub/b.txt'', 150)]\<rparr>"

definition one_candidate_world :: world where
  "one_candidate_world = empty_world\<lparr>taskFiles := [(''/src/a.txt'', 150)]\<rparr>"

definition all_stages :: stage_flags where
  "all_stages =
     \<lparr>run_scan = True, run_copy = True, run_evict = True,
      cbScan = True, cbCopy = True, cbEvict = True\<rparr>"

text \<open>
  Variants of the environment: the first eviction of the first file fails; every copy
  raises; the second read of the stop flag sees it set; the stop flag is set right after
  its first read and stays set (and the first eviction fails).
\<close>

definition retry_env :: env where
  "retry_env = example_env\<lparr>evict_first := (\<lambda>i. if i = 1 then EvictFailed else EvictOk)\<rparr>"


definition stop_second_read_env :: env where
  "stop_second_read_env = example_env\<lparr>stop_requested_at := (\<lambda>k. k = 1)\<rparr>"

definition stop_after_first_read_env :: env where
  "stop_after_first_read_env = retry_env\<lparr>stop_requested_at := (\<lambda>k. 0 < k)\<rparr>"


section \<open>The scan: proofs\<close>

lemma logging_simps [simp]:
  "polls (logging x w) = polls w"
  "taskFiles (logging x w) = taskFiles w"
  "target_mtime (logging x w) = target_mtime w"
  "log (logging x w) = log w @ [x]"
  "visited (logging x w) = visited w"
  by (simp_all add: logging_def)

lemma enter_entry_simps [simp]:
  "polls (enter_entry topdir f node w) = Suc (polls w)"
  "taskFiles (enter_entry topdir f node w) = taskFiles w"
  "target_mtime (enter_entry topdir f node w) = target_mtime w"
  "log (enter_entry topdir f node w) = log w"
  "visited (enter_entry topdir f node w) = visited w @ [(path_join topdir f, f, node)]"
  by (simp_all add: enter_entry_def)

lemma file_to_sync_simps [simp]:
  "polls (file_to_sync last_run p m c w) = polls w"
  "target_mtime (file_to_sync last_run p m c w) = target_mtime w"
  "visited (file_to_sync last_run p m c w) = visited w"
  by (simp_all add: file_to_sync_def)

lemma stop_observed_same [simp]: "\<not> stop_observed e p p"
  by (simp add: stop_observed_def)

lemma stop_observed_step:
  "p < p' \<Longrightarrow> stop_observed e p p' = (stop_requested_at e p \<or> stop_observed e (Suc p) p')"
  by (simp add: stop_observed_def upt_conv_Cons)

lemma stop_observed_trans:
  "p \<le> q \<Longrightarrow> q \<le> r \<Longrightarrow> stop_observed e p r = (stop_observed e p q \<or> stop_observed e q r)"
proof -
  assume "p \<le> q" "q \<le> r"
  then have "[p ..< r] = [p ..< q] @ [q ..< r]"
    by (metis le_Suc_ex upt_add_eq_append)
  then show ?thesis by (simp add: stop_observed_def)
qed

lemma candidates_of_simps [simp]:
  "candidates_of rules last_run [] = []"
  "candidates_of rules last_run (xs @ ys) = candidates_of rules last_run xs @ candidates_of rules last_run ys"
  by (simp_all add: candidates_of_def)

lemma special_entries_simps [simp]:
  "special_entries [] = []"
  "special_entries (xs @ ys) = special_entries xs @ special_entries ys"
  by (simp_all add: special_entries_def)

lemma skipped_simps [simp]:
  "skipped [] = []"
  "skipped (xs @ ys) = skipped xs @ skipped ys"
  by (simp_all add: skipped_def)

lemma walk_rel_same [simp]: "walk_rel e rules last_run w (True, w)"
  by (simp add: walk_rel_def)

lemma walk_rel_error:
  "walk_rel e rules last_run w (True, logging (ErrorAccessing p) w)"
  by (simp add: walk_rel_def skipped_def)

lemma walk_rel_trans:
  assumes "walk_rel e rules last_run w (True, w1)" and "walk_rel e rules last_run w1 r"
  shows "walk_rel e rules last_run w r"
proof -
  obtain ok w' where r: "r = (ok, w')" by (cases r)
  from assms(1) obtain vs1 where 1:
    "polls w \<le> polls w1" "\<not> stop_observed e (polls w) (polls w1)" "target_mtime w1 = target_mtime w"
    "visited w1 = visited w @ vs1"
    "taskFiles w1 = taskFiles w @ candidates_of rules last_run vs1"
    "skipped (log w1) = skipped (log w) @ special_entries vs1"
    by (auto simp: walk_rel_def)
  from assms(2) r obtain vs2 where 2:
    "polls w1 \<le> polls w'" "ok = (\<not> stop_observed e (polls w1) (polls w'))" "target_mtime w' = target_mtime w1"
    "visited w' = visited w1 @ vs2"
    "taskFiles w' = taskFiles w1 @ candidates_of rules last_run vs2"
    "skipped (log w') = skipped (log w1) @ special_entries vs2"
    by (auto simp: walk_rel_def)
  have "ok = (\<not> stop_observed e (polls w) (polls w'))"
    using 1(1,2) 2(1,2) stop_observed_trans[of "polls w" "polls w1" "polls w'" e] by simp
  moreover have "visited w' = visited w @ (vs1 @ vs2)"
    "taskFiles w' = taskFiles w @ candidates_of rules last_run (vs1 @ vs2)"
    "skipped (log w') = skipped (log w) @ special_entries (vs1 @ vs2)"
    using 1 2 by simp_all
  ultimately show ?thesis
    unfolding r walk_rel_def using 1(1,3) 2(1,3) by (simp del: candidates_of_simps special_entries_simps)
qed

text \<open>Entering an entry that adds no candidate and no warning.\<close>

lemma walk_rel_enter:
  assumes "\<not> stop_requested_at e (polls w)"
    and "contributes rules last_run (path_join topdir f, f, node) = []"
    and "node \<noteq> Special"
  shows "walk_rel e rules last_run w (True, enter_entry topdir f node w)"
  using assms
  by (cases node) (simp_all add: walk_rel_def stop_observed_step candidates_of_def special_entries_def)

lemma walk_rel_file:
  assumes "\<not> stop_requested_at e (polls w)" and "\<not> should_ignore rules f"
  shows "walk_rel e rules last_run w
           (True, file_to_sync last_run (path_join topdir f) mtime ctime
                    (enter_entry topdir f (Reg mtime ctime) w))"
  using assms
  by (simp add: walk_rel_def stop_observed_step candidates_of_def special_entries_def
        contributes_def file_to_sync_def skipped_def)

lemma walk_rel_special:
  assumes "\<not> stop_requested_at e (polls w)"
  shows "walk_rel e rules last_run w
           (True, logging (WarnSkipping (path_join topdir f)) (enter_entry topdir f Special w))"
  using assms
  by (simp add: walk_rel_def stop_observed_step candidates_of_def special_entries_def
        contributes_def skipped_def)

lemma walk_rel_stop:
  assumes "stop_requested_at e (polls w)"
  shows "walk_rel e rules last_run w (False, w\<lparr>polls := Suc (polls w)\<rparr>)"
  using assms by (simp add: walk_rel_def stop_observed_step)

text \<open>The loop body of \<open>walk_entries\<close>, one equation for each way through it.\<close>

lemma walk_entries_stop:
  "stop_requested_at e (polls w) \<Longrightarrow>
     walk_entries e rules last_run topdir ((f, node) # rest) w = (False, w\<lparr>polls := Suc (polls w)\<rparr>)"
  by simp

lemma walk_entries_ignored:
  "\<not> stop_requested_at e (polls w) \<Longrightarrow> should_ignore rules f \<Longrightarrow>
   node \<noteq> Special \<Longrightarrow> node \<noteq> Unstatable \<Longrightarrow>
     walk_entries e rules last_run topdir ((f, node) # rest) w =
       walk_entries e rules last_run topdir rest (enter_entry topdir f node w)"
  by (cases node) (simp_all add: Let_def)

lemma walk_entries_dir:
  "\<not> stop_requested_at e (polls w) \<Longrightarrow> \<not> should_ignore rules f \<Longrightarrow>
   node = Dir sub \<or> node = DirUnlistable \<Longrightarrow>
     walk_entries e rules last_run topdir ((f, node) # rest) w =
       (case walktree e rules last_run (path_join topdir f) node (enter_entry topdir f node w) of
          (False, w2) \<Rightarrow> (False, w2)
        | (True, w2) \<Rightarrow> walk_entries e rules last_run topdir rest w2)"
  by (cases node) (simp_all add: Let_def)

lemma walk_entries_reg:
  "\<not> stop_requested_at e (polls w) \<Longrightarrow> \<not> should_ignore rules f \<Longrightarrow>
     walk_entries e rules last_run topdir ((f, Reg mtime ctime) # rest) w =
       walk_entries e rules last_run topdir rest
         (file_to_sync last_run (path_join topdir f) mtime ctime
            (enter_entry topdir f (Reg mtime ctime) w))"
  by (simp add: Let_def)

lemma walk_entries_reg_unstatable:
  "\<not> stop_requested_at e (polls w) \<Longrightarrow> \<not> should_ignore rules f \<Longrightarrow>
     walk_entries e rules last_run topdir ((f, RegUnstatable) # rest) w =
       (True, logging (ErrorAccessing topdir) (enter_entry topdir f RegUnstatable w))"
  by (simp add: Let_def)

lemma walk_entries_special:
  "\<not> stop_requested_at e (polls w) \<Longrightarrow>
     walk_entries e rules last_run topdir ((f, Special) # rest) w =
       walk_entries e rules last_run topdir rest
         (logging (WarnSkipping (path_join topdir f)) (enter_entry topdir f Special w))"
  by (simp add: Let_def)

lemma walk_entries_unstatable:
  "\<not> stop_requested_at e (polls w) \<Longrightarrow>
     walk_entries e rules last_run topdir ((f, Unstatable) # rest) w =
       (True, logging (ErrorAccessing topdir) (enter_entry topdir f Unstatable w))"
  by (simp add: Let_def)

lemma walk_rel_walk:
  "walk_rel e rules last_run w (walktree e rules last_run topdir node w)"
  "walk_rel e rules last_run w (walk_entries e rules last_run topdir entries w)"
proof (induction e rules last_run topdir node w and e rules last_run topdir entries w
       rule: walktree_walk_entries.induct)
  case (8 e rules last_run topdir f node rest w)
  let ?w1 = "enter_entry topdir f node w"
  let ?p = "path_join topdir f"
  let ?lhs = "walk_entries e rules last_run topdir ((f, node) # rest) w"
  show ?case
  proof (cases "stop_requested_at e (polls w)")
    case True
    then show ?thesis by (simp only: walk_entries_stop walk_rel_stop)
  next
    case False
    note IH = "8.IH"[OF False refl refl]
    have quiet: "walk_rel e rules last_run w (True, ?w1)"
      if "contributes rules last_run (?p, f, node) = []" "node \<noteq> Special"
      using False that by (rule walk_rel_enter)
    have skip: "walk_rel e rules last_run w ?lhs"
      if ign: "should_ignore rules f" and ns: "node \<noteq> Special" and nu: "node \<noteq> Unstatable"
        and rest: "walk_rel e rules last_run ?w1 (walk_entries e rules last_run topdir rest ?w1)"
    proof -
      have "contributes rules last_run (?p, f, node) = []"
        using ign by (cases node) (simp_all add: contributes_def)
      from walk_rel_trans[OF quiet[OF this ns] rest] show ?thesis
        by (simp only: walk_entries_ignored[OF False ign ns nu])
    qed
    have descend: "walk_rel e rules last_run w ?lhs"
      if dir: "node = Dir sub \<or> node = DirUnlistable" and ni: "\<not> should_ignore rules f"
        and sub: "walk_rel e rules last_run ?w1 (walktree e rules last_run ?p node ?w1)"
        and rest: "\<And>w2. (True, w2) = walktree e rules last_run ?p node ?w1 \<Longrightarrow>
                 walk_rel e rules last_run w2 (walk_entries e rules last_run topdir rest w2)"
      for sub
    proof -
      obtain b w2 where r: "walktree e rules last_run ?p node ?w1 = (b, w2)"
        by (cases "walktree e rules last_run ?p node ?w1")
      have "contributes rules last_run (?p, f, node) = []" "node \<noteq> Special"
        using dir by (auto simp: contributes_def)
      then have q: "walk_rel e rules last_run w (True, ?w1)" by (rule quiet)
      have qs: "walk_rel e rules last_run w (b, w2)"
        using walk_rel_trans[OF q sub] by (simp only: r)
      have lhs: "?lhs = (case (b, w2) of (False, w2) \<Rightarrow> (False, w2)
                         | (True, w2) \<Rightarrow> walk_entries e rules last_run topdir rest w2)"
        by (simp only: walk_entries_dir[OF False ni dir] r)
      show ?thesis
      proof (cases b)
        case True
        have "walk_rel e rules last_run w2 (walk_entries e rules last_run topdir rest w2)"
          by (rule rest) (simp only: r True)
        moreover from qs True have "walk_rel e rules last_run w (True, w2)" by simp
        ultimately have "walk_rel e rules last_run w (walk_entries e rules last_run topdir rest w2)"
          by (rule walk_rel_trans[rotated])
        with lhs True show ?thesis by simp
      next
        case b: False
        with qs lhs show ?thesis by simp
      qed
    qed
    show ?thesis
    proof (cases node)
      case (Dir sub)
      show ?thesis
      proof (cases "should_ignore rules f")
        case True
        show ?thesis using True _ _ IH(1)[OF Dir True] by (rule skip) (simp_all add: Dir)
      next
        case ni: False
        have "node = Dir sub \<or> node = DirUnlistable" using Dir by simp
        then show ?thesis using ni
        proof (rule descend)
          show "walk_rel e rules last_run ?w1 (walktree e rules last_run ?p node ?w1)"
            using IH(2)[OF Dir ni] by (simp only: Dir)
          show "walk_rel e rules last_run w2 (walk_entries e rules last_run topdir rest w2)"
            if "(True, w2) = walktree e rules last_run ?p node ?w1" for w2
            using that IH(3)[OF Dir ni _ refl] unfolding Dir by blast
        qed
      qed
    next
      case DirUnlistable
      show ?thesis
      proof (cases "should_ignore rules f")
        case True
        show ?thesis using True _ _ IH(4)[OF DirUnlistable True]
          by (rule skip) (simp_all add: DirUnlistable)
      next
        case ni: False
        have "node = Dir [] \<or> node = DirUnlistable" using DirUnlistable by simp
        then show ?thesis using ni
        proof (rule descend)
          show "walk_rel e rules last_run ?w1 (walktree e rules last_run ?p node ?w1)"
            using IH(5)[OF DirUnlistable ni] by (simp only: DirUnlistable)
          show "walk_rel e rules last_run w2 (walk_entries e rules last_run topdir rest w2)"
            if "(True, w2) = walktree e rules last_run ?p node ?w1" for w2
            using that IH(6)[OF DirUnlistable ni _ refl] unfolding DirUnlistable by blast
        qed
      qed
    next
      case (Reg mtime ctime)
      show ?thesis
      proof (cases "should_ignore rules f")
        case True
        show ?thesis using True _ _ IH(7)[OF Reg True] by (rule skip) (simp_all add: Reg)
      next
        case ni: False
        have "walk_rel e rules last_run w (True, file_to_sync last_run ?p mtime ctime ?w1)"
          unfolding Reg using False ni by (rule walk_rel_file)
        from walk_rel_trans[OF this IH(8)[OF Reg ni]] show ?thesis
          unfolding Reg by (simp only: walk_entries_reg[OF False ni])
      qed
    next
      case RegUnstatable
      show ?thesis
      proof (cases "should_ignore rules f")
        case True
        show ?thesis using True _ _ IH(9)[OF RegUnstatable True]
          by (rule skip) (simp_all add: RegUnstatable)
      next
        case ni: False
        have "walk_rel e rules last_run w (True, ?w1)"
          using RegUnstatable by (intro quiet) (simp_all add: contributes_def)
        from walk_rel_trans[OF this walk_rel_error] show ?thesis
          unfolding RegUnstatable by (simp only: walk_entries_reg_unstatable[OF False ni])
      qed
    next
      case Special
      have "walk_rel e rules last_run w (True, logging (WarnSkipping ?p) ?w1)"
        unfolding Special using False by (rule walk_rel_special)
      from walk_rel_trans[OF this IH(10)[OF Special]] show ?thesis
        unfolding Special by (simp only: walk_entries_special[OF False])
    next
      case Unstatable
      have "walk_rel e rules last_run w (True, ?w1)"
        using Unstatable by (intro quiet) (simp_all add: contributes_def)
      from walk_rel_trans[OF this walk_rel_error] show ?thesis
        unfolding Unstatable by (simp only: walk_entries_unstatable[OF False])
    qed
  qed
qed (simp_all add: walk_rel_error)

text \<open>
  Claim C7. For every regular, non-ignored file reached by the scan, the file is added to
  the candidate list if and only if its modification time or its metadata-change time is
  strictly greater than the task's watermark; entries that are neither regular files nor
  directories (as \<^verbatim>\<open>lstat\<close> sees them, without following symlinks) are skipped with a
  warning.

  Whatever a call of \<open>walktree\<close> meets (ignored names, errors, a stop request), the
  candidates it appends are exactly those that the inclusion rule \<open>candidates_of\<close> gives
  for the entries it visited, in the order of the visits, and the warnings it logs are
  exactly one for each visited entry that is neither a directory nor a regular file. For
  a scan that returns without having seen the stop flag set, the candidate list it leaves
  is what the rule gives, for the task's watermark and ignore rules, for the entries it
  visited, and the count it returns is the length of that list.
\<close>

theorem scan_candidates:
  "(walktree e rules last_run topdir node w = (ok, w') \<longrightarrow>
      (\<exists>vs. visited w' = visited w @ vs \<and>
            taskFiles w' = taskFiles w @ candidates_of rules last_run vs \<and>
            skipped (log w') = skipped (log w) @ special_entries vs)) \<and>
   (scan_source_for_sync e cfg tree w = Inr (n, w'') \<and>
    \<not> stop_observed e (polls w) (polls w'') \<longrightarrow>
      (\<exists>s watermark vs.
         cfg_synced cfg = Some s \<and> strptime e s = Some watermark \<and>
         visited w'' = visited w @ vs \<and>
         taskFiles w'' = candidates_of (cfg_ignore cfg) watermark vs \<and>
         n = length (taskFiles w'') \<and>
         skipped (log w'') = skipped (log w) @ special_entries vs))"
proof (intro conjI impI)
  assume "walktree e rules last_run topdir node w = (ok, w')"
  with walk_rel_walk(1)[of e rules last_run w topdir node]
  show "\<exists>vs. visited w' = visited w @ vs \<and>
            taskFiles w' = taskFiles w @ candidates_of rules last_run vs \<and>
            skipped (log w') = skipped (log w) @ special_entries vs"
    by (simp add: walk_rel_def)
next
  assume a: "scan_source_for_sync e cfg tree w = Inr (n, w'') \<and>
    \<not> stop_observed e (polls w) (polls w'')"
  then obtain s watermark where s: "cfg_synced cfg = Some s" "strptime e s = Some watermark"
    by (auto simp: scan_source_for_sync_def Let_def split: option.splits)
  let ?w0 = "w\<lparr>taskFiles := []\<rparr>"
  obtain ok w1 where
    walk: "walktree e (cfg_ignore cfg) watermark (cfg_source cfg) tree ?w0 = (ok, w1)"
    by (cases "walktree e (cfg_ignore cfg) watermark (cfg_source cfg) tree ?w0")
  from walk_rel_walk(1)[of e "cfg_ignore cfg" watermark ?w0 "cfg_source cfg" tree] walk
  obtain vs where r: "ok = (\<not> stop_observed e (polls w) (polls w1))"
    "visited w1 = visited w @ vs" "taskFiles w1 = candidates_of (cfg_ignore cfg) watermark vs"
    "skipped (log w1) = skipped (log w) @ special_entries vs"
    by (auto simp: walk_rel_def)
  have p: "polls w'' = polls w1"
    using a s walk by (cases ok) (auto simp: scan_source_for_sync_def)
  with a r(1) have ok by simp
  with a s walk have "n = length (taskFiles w1)" "w'' = logging (InfoFound n) w1"
    by (auto simp: scan_source_for_sync_def)
  with r s show "\<exists>s watermark vs.
         cfg_synced cfg = Some s \<and> strptime e s = Some watermark \<and>
         visited w'' = visited w @ vs \<and>
         taskFiles w'' = candidates_of (cfg_ignore cfg) watermark vs \<and>
         n = length (taskFiles w'') \<and>
         skipped (log w'') = skipped (log w) @ special_entries vs"
    by (simp add: skipped_def)
qed

theorem scan_candidates_witness:
  "taskFiles (snd (walktree example_env (cfg_ignore example_cfg) 100 ''/src'' example_tree empty_world))
     = candidates_of (cfg_ignore example_cfg) 100
         (visited (snd (walktree example_env (cfg_ignore example_cfg) 100 ''/src'' example_tree
                          empty_world))) \<and>
   taskFiles (snd (walktree example_env (cfg_ignore example_cfg) 100 ''/src'' example_tree empty_world))
     = [(''/src/a.txt'', 150), (''/src/sub/b.txt'', 150)] \<and>
   skipped (log (snd (walktree example_env (cfg_ignore example_cfg) 100 ''/src'' example_tree
                        empty_world)))
     = [''/src/sock''] \<and>
   (\<exists>n w'. scan_source_for_sync example_env example_cfg example_tree empty_world = Inr (n, w') \<and>
      taskFiles w' = candidates_of (cfg_ignore example_cfg) 100 (visited w') \<and>
      n = 2 \<and> skipped (log w') = special_entries (visited w'))"
proof -
  obtain ok w' where
    run: "walktree example_env (cfg_ignore example_cfg) 100 ''/src'' example_tree empty_world = (ok, w')"
    by (cases "walktree example_env (cfg_ignore example_cfg) 100 ''/src'' example_tree empty_world")
  have "case scan_source_for_sync example_env example_cfg example_tree empty_world of
          Inl failure \<Rightarrow> False
        | Inr (n, w2) \<Rightarrow>
            n = 2 \<and> \<not> stop_observed example_env (polls empty_world) (polls w2)"
    by code_simp
  then obtain n w2 where
    scan: "scan_source_for_sync example_env example_cfg example_tree empty_world = Inr (n, w2)"
    and n: "n = 2" and ns: "\<not> stop_observed example_env (polls empty_world) (polls w2)"
    by (auto split: sum.splits)
  have wm: "cfg_synced example_cfg = Some ''2026-01-01 00:00:00''"
    "strptime example_env ''2026-01-01 00:00:00'' = Some 100"
    by code_simp+
  note inst = scan_candidates[where e = example_env and rules = "cfg_ignore example_cfg"
      and last_run = 100 and topdir = "''/src''" and node = example_tree and w = empty_world
      and ok = ok and w' = w' and cfg = example_cfg and tree = example_tree and n = n and w'' = w2]
  from inst run obtain vs where
    "visited w' = visited empty_world @ vs"
    "taskFiles w' = taskFiles empty_world @ candidates_of (cfg_ignore example_cfg) 100 vs"
    by blast
  then have 1: "taskFiles w' = candidates_of (cfg_ignore example_cfg) 100 (visited w')"
    by (simp add: empty_world_def)
  from inst scan ns wm obtain vs2 where
    "visited w2 = visited empty_world @ vs2"
    "taskFiles w2 = candidates_of (cfg_ignore example_cfg) 100 vs2"
    "skipped (log w2) = skipped (log empty_world) @ special_entries vs2"
    by auto
  then have 2: "taskFiles w2 = candidates_of (cfg_ignore example_cfg) 100 (visited w2)"
    "skipped (log w2) = special_entries (visited w2)"
    by (simp_all add: empty_world_def)
  have 3:
    "taskFiles (snd (walktree example_env (cfg_ignore example_cfg) 100 ''/src'' example_tree empty_world))
       = [(''/src/a.txt'', 150), (''/src/sub/b.txt'', 150)]"
    by code_simp
  have 4:
    "skipped (log (snd (walktree example_env (cfg_ignore example_cfg) 100 ''/src'' example_tree
                        empty_world)))
     = [''/src/sock'']"
    by code_simp
  from 1 2 3 4 run scan n show ?thesis by simp
qed

text \<open>
  Claim C8. A scan that observes the stop flag returns zero candidates with the task's
  candidate list left empty (no partial list is kept), and this outcome is logged
  distinctly from a scan that completed and found no files.

  A scan that returns has seen the stop flag set in one of its reads if and only if it
  returns 0 with an empty candidate list and "Scan cancelled by user." as its last log
  entry; otherwise it returns the length of the candidate list and its last log entry is
  "Found n files ...", which for a scan that found nothing is "Found 0 files ...".
\<close>

theorem scan_cancelled:
  assumes "scan_source_for_sync e cfg tree w = Inr (n, w')"
  shows "if stop_observed e (polls w) (polls w')
         then n = 0 \<and> taskFiles w' = [] \<and> last (log w') = InfoScanCancelled
         else n = length (taskFiles w') \<and> last (log w') = InfoFound n"
proof -
  from assms obtain s last_run where s: "cfg_synced cfg = Some s" "strptime e s = Some last_run"
    by (auto simp: scan_source_for_sync_def Let_def split: option.splits)
  let ?w0 = "w\<lparr>taskFiles := []\<rparr>"
  obtain ok w1 where walk: "walktree e (cfg_ignore cfg) last_run (cfg_source cfg) tree ?w0 = (ok, w1)"
    by (cases "walktree e (cfg_ignore cfg) last_run (cfg_source cfg) tree ?w0")
  from walk_rel_walk(1)[of e "cfg_ignore cfg" last_run ?w0 "cfg_source cfg" tree] walk
  have ok: "ok = (\<not> stop_observed e (polls w) (polls w1))"
    by (simp add: walk_rel_def)
  show ?thesis
  proof (cases ok)
    case True
    with assms s walk have "n = length (taskFiles w1)" "w' = logging (InfoFound n) w1"
      by (auto simp: scan_source_for_sync_def)
    with ok True show ?thesis by simp
  next
    case False
    with assms s walk have "n = 0" "w' = logging InfoScanCancelled (w1\<lparr>taskFiles := []\<rparr>)"
      by (auto simp: scan_source_for_sync_def)
    with ok False show ?thesis by simp
  qed
qed

theorem scan_cancelled_witness:
  "\<exists>n w'. scan_source_for_sync stop_second_read_env example_cfg example_tree empty_world = Inr (n, w') \<and>
     stop_observed stop_second_read_env (polls empty_world) (polls w') \<and>
     n = 0 \<and> taskFiles w' = [] \<and> last (log w') = InfoScanCancelled"
proof -
  have "case scan_source_for_sync stop_second_read_env example_cfg example_tree empty_world of
          Inl failure \<Rightarrow> False
        | Inr (n, w') \<Rightarrow> polls w' = 2"
    by code_simp
  then obtain n w' where
    run: "scan_source_for_sync stop_second_read_env example_cfg example_tree empty_world = Inr (n, w')"
    and p: "polls w' = 2"
    by (auto split: sum.splits)
  have obs: "stop_observed stop_second_read_env (polls empty_world) (polls w')"
    unfolding p by code_simp
  with scan_cancelled[OF run]
  have "n = 0 \<and> taskFiles w' = [] \<and> last (log w') = InfoScanCancelled" by simp
  with run obs show ?thesis by blast
qed




text \<open>
  Claim C4. For a task whose \<^verbatim>\<open>synced\<close> watermark is absent or empty (never synced),
  the scan still completes normally, treating every non-ignored regular file as changed
  since "never".

  The code does not: without the key the scan raises \<^verbatim>\<open>KeyError\<close>, and with a string
  that \<^verbatim>\<open>time.strptime\<close> rejects, as it rejects the empty string, it raises
  \<^verbatim>\<open>ValueError\<close>; in both cases nothing is scanned.
\<close>

theorem scan_raises_without_watermark:
  "scan_source_for_sync e (cfg\<lparr>cfg_synced := None\<rparr>) tree w = Inl (KeyError, w\<lparr>taskFiles := []\<rparr>) \<and>
   (strptime e s = None \<longrightarrow>
      scan_source_for_sync e (cfg\<lparr>cfg_synced := Some s\<rparr>) tree w = Inl (ValueError, w\<lparr>taskFiles := []\<rparr>))"
  by (simp add: scan_source_for_sync_def)

theorem scan_raises_without_watermark_witness:
  "scan_source_for_sync example_env (example_cfg\<lparr>cfg_synced := Some []\<rparr>) example_tree empty_world
     = Inl (ValueError, empty_world\<lparr>taskFiles := []\<rparr>) \<and>
   scan_source_for_sync example_env (example_cfg\<lparr>cfg_synced := None\<rparr>) example_tree empty_world
     = Inl (KeyError, empty_world\<lparr>taskFiles := []\<rparr>)"
proof -
  have "strptime example_env [] = None" by code_simp
  with scan_raises_without_watermark[of example_env example_cfg example_tree empty_world "[]"]
  show ?thesis by blast
qed

section \<open>The copy/evict pipeline: proofs\<close>

lemma evict_copied_inv:
  "retry_inv c \<Longrightarrow> evict_copied e flags simsync index sp tp (c, w) = (c', w') \<Longrightarrow> retry_inv c'"
  by (auto simp: evict_copied_def retry_inv_def Let_def split: if_splits evict_outcome.splits)

lemma process_candidate_inv:
  "retry_inv c \<Longrightarrow> process_candidate e flags cfg simsync index cand (c, w) = (c', w') \<Longrightarrow> retry_inv c'"
  by (auto simp: process_candidate_def Let_def split: prod.splits if_splits option.splits
           dest: evict_copied_inv)

lemma sync_loop_inv:
  "retry_inv c \<Longrightarrow> sync_loop e flags cfg simsync index cands (c, w) = (b, c', w') \<Longrightarrow> retry_inv c'"
proof (induction cands arbitrary: index c w)
  case Nil
  then show ?case by simp
next
  case (Cons cand rest)
  show ?case
  proof (cases "stop_requested_at e (polls w)")
    case True
    with Cons.prems show ?thesis by simp
  next
    case False
    obtain c1 w1 where step:
      "process_candidate e flags cfg simsync index cand (c, w\<lparr>polls := Suc (polls w)\<rparr>) = (c1, w1)"
      by (cases "process_candidate e flags cfg simsync index cand (c, w\<lparr>polls := Suc (polls w)\<rparr>)")
    from Cons.prems(1) step have "retry_inv c1" by (rule process_candidate_inv)
    moreover from Cons.prems(2) False step
    have "sync_loop e flags cfg simsync (Suc index) rest (c1, w1) = (b, c', w')" by simp
    ultimately show ?thesis by (rule Cons.IH)
  qed
qed

lemma log_counts_simps [simp]:
  "copies [] = 0" "copies (xs @ ys) = copies xs + copies ys"
  "first_evictions [] = 0" "first_evictions (xs @ ys) = first_evictions xs + first_evictions ys"
  "first_failures [] = []" "first_failures (xs @ ys) = first_failures xs @ first_failures ys"
  "retried [] = []" "retried (xs @ ys) = retried xs @ retried ys"
  "retry_evictions [] = 0" "retry_evictions (xs @ ys) = retry_evictions xs + retry_evictions ys"
  by (simp_all add: copies_def first_evictions_def first_failures_def retried_def retry_evictions_def)

lemma log_counts_Cons [simp]:
  "copies (x # xs) = (if copy_entry x then 1 else 0) + copies xs"
  "first_evictions (x # xs) = (if first_eviction x then 1 else 0) + first_evictions xs"
  "first_failures (x # xs) = first_failure x @ first_failures xs"
  "retried (x # xs) = retry_entry x @ retried xs"
  "retry_evictions (x # xs) = (if retry_eviction x then 1 else 0) + retry_evictions xs"
  by (simp_all add: copies_def first_evictions_def first_failures_def retried_def retry_evictions_def)

lemma main_step_refl [simp]: "main_step cw cw"
  by (cases cw) (simp add: main_step_def)

lemma main_step_trans:
  assumes "main_step a b" and "main_step b c"
  shows "main_step a c"
proof -
  obtain ca wa cb wb cc wc where [simp]: "a = (ca, wa)" "b = (cb, wb)" "c = (cc, wc)"
    by (cases a, cases b, cases c) auto
  from assms(1) obtain n1 where 1: "polls wb = polls wa" "taskFiles wb = taskFiles wa"
    "log wb = log wa @ n1"
    "copied_count cb = copied_count ca + copies n1"
    "evicted_count cb = evicted_count ca + first_evictions n1"
    "evict_retry cb = evict_retry ca @ first_failures n1" "retried n1 = []"
    by (auto simp: main_step_def)
  from assms(2) obtain n2 where 2: "polls wc = polls wb" "taskFiles wc = taskFiles wb"
    "log wc = log wb @ n2"
    "copied_count cc = copied_count cb + copies n2"
    "evicted_count cc = evicted_count cb + first_evictions n2"
    "evict_retry cc = evict_retry cb @ first_failures n2" "retried n2 = []"
    by (auto simp: main_step_def)
  have "log wc = log wa @ (n1 @ n2)"
    "copied_count cc = copied_count ca + copies (n1 @ n2)"
    "evicted_count cc = evicted_count ca + first_evictions (n1 @ n2)"
    "evict_retry cc = evict_retry ca @ first_failures (n1 @ n2)" "retried (n1 @ n2) = []"
    using 1 2 by simp_all
  then show ?thesis
    using 1(1,2) 2(1,2) unfolding main_step_def by (simp del: log_counts_simps)
qed

lemma main_step_logged:
  assumes "log w' = log w @ new" "polls w' = polls w" "taskFiles w' = taskFiles w"
    "copied_count c' = copied_count c + copies new"
    "evicted_count c' = evicted_count c + first_evictions new"
    "evict_retry c' = evict_retry c @ first_failures new" "retried new = []"
  shows "main_step (c, w) (c', w')"
  unfolding main_step_def using assms by auto

lemma evict_copied_step:
  assumes "copy_entry x" "retry_entry x = []" "first_failure x = []" "\<not> first_eviction x"
    and "polls w1 = polls w" "taskFiles w1 = taskFiles w" "log w1 = log w"
  shows "main_step (c, w) (evict_copied e flags simsync index source_path target_path (c, logging x w1))"
proof (cases "run_evict flags")
  case False
  then show ?thesis using assms
    by (auto simp: evict_copied_def Let_def intro!: main_step_logged[where new = "[x]"])
next
  case True
  show ?thesis
  proof (cases simsync)
    case sim: True
    with True show ?thesis using assms
      by (auto simp: evict_copied_def Let_def
               intro!: main_step_logged[where new = "[x, InfoSimEvict target_path]"])
  next
    case False
    show ?thesis
    proof (cases "evict_first e index")
      case EvictOk
      with True False show ?thesis using assms
        by (auto simp: evict_copied_def Let_def
                 intro!: main_step_logged[where new = "[x, InfoEvicted target_path]"])
    next
      case EvictFailed
      with True False show ?thesis using assms
        by (auto simp: evict_copied_def Let_def
                 intro!: main_step_logged[where new = "[x, ErrorEvictFirst target_path]"])
    next
      case EvictRaised
      with True False show ?thesis using assms
        by (auto simp: evict_copied_def Let_def
                 intro!: main_step_logged[where new = "[x, ErrorProcessing source_path]"])
    qed
  qed
qed

lemma process_candidate_step:
  "main_step (c, w) (process_candidate e flags cfg simsync index cand (c, w))"
proof -
  obtain source_path source_mtime where cand: "cand = (source_path, source_mtime)" by (cases cand)
  let ?tp = "target_path_of e cfg source_path"
  have err: "main_step (c, w) (c, logging (ErrorProcessing source_path) w1)"
    if "polls w1 = polls w" "taskFiles w1 = taskFiles w" "log w1 = log w @ pre"
       "copies pre = 0" "first_evictions pre = 0" "first_failures pre = []" "retried pre = []"
    for w1 pre
    using that by (auto intro!: main_step_logged[where new = "pre @ [ErrorProcessing source_path]"])
  show ?thesis
  proof (cases simsync)
    case True
    let ?w1 = "logging (InfoSimMkdir (dirname ?tp)) w"
    have pre: "main_step (c, w) (c, ?w1)"
      by (auto intro!: main_step_logged[where new = "[InfoSimMkdir (dirname ?tp)]"])
    show ?thesis
    proof (cases "copy_needed ?w1 ?tp source_mtime")
      case cn: True
      have "main_step (c, ?w1)
              (evict_copied e flags simsync index source_path ?tp
                 (c, logging (InfoSimCopy source_path ?tp) ?w1))"
        by (rule evict_copied_step) simp_all
      from main_step_trans[OF pre this] True cn cand show ?thesis
        by (simp add: process_candidate_def Let_def)
    next
      case False
      with pre True cand show ?thesis by (simp add: process_candidate_def Let_def)
    qed
  next
    case False
    show ?thesis
    proof (cases "makedirs_raises e index")
      case True
      with False cand err[of w "[]"] show ?thesis by (simp add: process_candidate_def Let_def)
    next
      case mk: False
      show ?thesis
      proof (cases "copy_needed w ?tp source_mtime")
        case cn: True
        show ?thesis
        proof (cases "copy2 e index")
          case None
          with False mk cn cand err[of w "[]"] show ?thesis
            by (simp add: process_candidate_def Let_def)
        next
          case (Some m)
          have "main_step (c, w)
                  (evict_copied e flags simsync index source_path ?tp
                     (c, logging (InfoCopied source_path ?tp)
                           (w\<lparr>target_mtime := (target_mtime w)(?tp \<mapsto> m)\<rparr>)))"
            by (rule evict_copied_step) simp_all
          with False mk cn cand Some show ?thesis by (simp add: process_candidate_def Let_def)
        qed
      next
        case cn: False
        with False mk cand show ?thesis by (simp add: process_candidate_def Let_def)
      qed
    qed
  qed
qed

lemma sync_loop_rel:
  "loop_rel e (length cands) (c, w) (sync_loop e flags cfg simsync index cands (c, w))"
proof (induction cands arbitrary: index c w)
  case Nil
  show ?case by (simp add: loop_rel_def)
next
  case (Cons cand rest)
  show ?case
  proof (cases "stop_requested_at e (polls w)")
    case True
    then show ?thesis by (simp add: loop_rel_def stop_observed_step)
  next
    case False
    let ?w0 = "w\<lparr>polls := Suc (polls w)\<rparr>"
    obtain c1 w1 where step: "process_candidate e flags cfg simsync index cand (c, ?w0) = (c1, w1)"
      by (cases "process_candidate e flags cfg simsync index cand (c, ?w0)")
    obtain b c' w' where rest: "sync_loop e flags cfg simsync (Suc index) rest (c1, w1) = (b, c', w')"
      by (cases "sync_loop e flags cfg simsync (Suc index) rest (c1, w1)")
    from process_candidate_step[of c ?w0 e flags cfg simsync index cand] step
    obtain n1 where 1: "polls w1 = Suc (polls w)" "taskFiles w1 = taskFiles w" "log w1 = log w @ n1"
      "copied_count c1 = copied_count c + copies n1"
      "evicted_count c1 = evicted_count c + first_evictions n1"
      "evict_retry c1 = evict_retry c @ first_failures n1" "retried n1 = []"
      by (auto simp: main_step_def)
    from Cons.IH[of c1 w1 "Suc index"] rest
    obtain n2 where 2: "taskFiles w' = taskFiles w1" "polls w1 \<le> polls w'"
      "b = stop_observed e (polls w1) (polls w')" "\<not> b \<longrightarrow> polls w' = polls w1 + length rest"
      "log w' = log w1 @ n2 @ (if b then [InfoSyncCancelled (copied_count c') (evicted_count c')] else [])"
      "copied_count c' = copied_count c1 + copies n2"
      "evicted_count c' = evicted_count c1 + first_evictions n2"
      "evict_retry c' = evict_retry c1 @ first_failures n2" "retried n2 = []"
      by (auto simp: loop_rel_def)
    have "log w' = log w @ (n1 @ n2) @ (if b then [InfoSyncCancelled (copied_count c') (evicted_count c')] else [])"
      "copied_count c' = copied_count c + copies (n1 @ n2)"
      "evicted_count c' = evicted_count c + first_evictions (n1 @ n2)"
      "evict_retry c' = evict_retry c @ first_failures (n1 @ n2)" "retried (n1 @ n2) = []"
      using 1 2 by simp_all
    then have ex: "\<exists>main. log w' = log w @ main @
                   (if b then [InfoSyncCancelled (copied_count c') (evicted_count c')] else []) \<and>
           copied_count c' = copied_count c + copies main \<and>
           evicted_count c' = evicted_count c + first_evictions main \<and>
           evict_retry c' = evict_retry c @ first_failures main \<and>
           retried main = []" by blast
    have "b = stop_observed e (polls w) (polls w')"
      using 1(1) 2(2,3) False stop_observed_step[of "polls w" "polls w'" e] by simp
    with ex 1 2 have "loop_rel e (length (cand # rest)) (c, w) (b, c', w')"
      unfolding loop_rel_def by simp
    with False step rest show ?thesis by simp
  qed
qed

lemma retry_loop_rel:
  "retry_rel paths (c, w) (retry_loop e simsync k paths (c, w))"
proof (induction paths arbitrary: k c w)
  case Nil
  show ?case by (simp add: retry_rel_def)
next
  case (Cons p rest)
  let ?step = "if \<not> simsync then
          (case evict_second e k of
             EvictOk \<Rightarrow>
               (c\<lparr>evicted_count := evicted_count c + 1\<rparr>, logging (InfoEvictedRetry p) w)
           | EvictFailed \<Rightarrow> (c, logging (ErrorEvictRetry p) w)
           | EvictRaised \<Rightarrow> (c, logging (ErrorProcessingRetry p) w))
        else (c\<lparr>evicted_count := evicted_count c + 1\<rparr>, logging (InfoSimEvictRetry p) w)"
  obtain c1 w1 where step: "?step = (c1, w1)" by (cases ?step)
  then obtain x where 1: "log w1 = log w @ [x]" "retry_entry x = [p]"
    "evicted_count c1 = evicted_count c + (if retry_eviction x then 1 else 0)"
    "copied_count c1 = copied_count c" "polls w1 = polls w" "taskFiles w1 = taskFiles w"
    "target_mtime w1 = target_mtime w"
    by (cases simsync; cases "evict_second e k") (auto split: if_splits)
  obtain c' w' where r: "retry_loop e simsync (Suc k) rest (c1, w1) = (c', w')"
    by (cases "retry_loop e simsync (Suc k) rest (c1, w1)")
  from Cons.IH[of c1 w1 "Suc k"] r obtain retry where 2:
    "polls w' = polls w1" "taskFiles w' = taskFiles w1" "target_mtime w' = target_mtime w1"
    "copied_count c' = copied_count c1"
    "log w' = log w1 @ retry" "retried retry = rest" "length retry = length rest"
    "evicted_count c' = evicted_count c1 + retry_evictions retry"
    by (auto simp: retry_rel_def)
  have "log w' = log w @ (x # retry)" "retried (x # retry) = p # rest"
    "length (x # retry) = length (p # rest)"
    "evicted_count c' = evicted_count c + retry_evictions (x # retry)"
    using 1 2 by simp_all
  then have "\<exists>retry. log w' = log w @ retry \<and> retried retry = p # rest \<and>
       length retry = length (p # rest) \<and>
       evicted_count c' = evicted_count c + retry_evictions retry" by blast
  with 1 2 have "retry_rel (p # rest) (c, w) (c', w')" unfolding retry_rel_def by simp
  moreover have "retry_loop e simsync k (p # rest) (c, w) = (c', w')"
    using step r by (simp only: retry_loop.simps)
  ultimately show ?case by simp
qed

lemma retry_evictions_le: "retry_evictions entries \<le> length entries"
  by (simp add: retry_evictions_def)

lemma retry_evictions_cancelled [simp]: "retry_evictions [InfoSyncCancelled a b] = 0"
  by (simp add: retry_evictions_def)

lemma retry_evictions_completed [simp]: "retry_evictions [InfoSyncCompleted a b] = 0"
  by (simp add: retry_evictions_def)

text \<open>
  Claim C10. For every run of the copy/evict pipeline, the returned evicted count is at
  most the copied count: an eviction (first attempt or retry) is only attempted for a file
  whose copy was counted in this run, and each such file gives at most one success.

  In the log of a run, every copy is counted; the successful first evictions and the
  failed ones together are at most the copies; the evicted count is the successful first
  evictions plus the successful retries, and the successful retries are at most the failed
  first evictions.
\<close>

theorem evicted_le_copied:
  assumes "sync_to_target_and_evict e flags cfg simsync w = ((copied, evicted), w')"
  shows "evicted \<le> copied \<and>
         (run_copy flags \<longrightarrow>
            (\<exists>main rest. log w' = log w @ main @ rest \<and>
               copied = copies main \<and> retried main = [] \<and>
               first_evictions main + length (first_failures main) \<le> copies main \<and>
               evicted = first_evictions main + retry_evictions rest \<and>
               retry_evictions rest \<le> length (first_failures main)))"
proof (cases "run_copy flags")
  case False
  with assms show ?thesis by (simp add: sync_to_target_and_evict_def)
next
  case True
  let ?c0 = "\<lparr>copied_count = 0, evicted_count = 0, evict_retry = []\<rparr>"
  obtain b c1 w1 where loop: "sync_loop e flags cfg simsync 1 (taskFiles w) (?c0, w) = (b, c1, w1)"
    by (cases "sync_loop e flags cfg simsync 1 (taskFiles w) (?c0, w)") auto
  from sync_loop_rel[of e "taskFiles w" ?c0 w flags cfg simsync 1] loop
  obtain main where 1:
    "log w1 = log w @ main @ (if b then [InfoSyncCancelled (copied_count c1) (evicted_count c1)] else [])"
    "copied_count c1 = copies main" "evicted_count c1 = first_evictions main"
    "evict_retry c1 = first_failures main" "retried main = []"
    by (auto simp: loop_rel_def)
  have "retry_inv ?c0" by (simp add: retry_inv_def)
  then have "retry_inv c1" using loop by (rule sync_loop_inv)
  with 1 have le: "first_evictions main + length (first_failures main) \<le> copies main"
    by (simp add: retry_inv_def)
  have "\<exists>rest. log w' = log w @ main @ rest \<and> copied = copies main \<and>
               evicted = first_evictions main + retry_evictions rest \<and>
               retry_evictions rest \<le> length (first_failures main)"
  proof (cases b)
    case b: True
    with assms loop True have "copied = copied_count c1" "evicted = evicted_count c1" "w' = w1"
      by (auto simp: sync_to_target_and_evict_def)
    with 1 b show ?thesis by auto
  next
    case False
    obtain c2 w2 where retry: "retry_loop e simsync 0 (evict_retry c1) (c1, w1) = (c2, w2)"
      by (cases "retry_loop e simsync 0 (evict_retry c1) (c1, w1)")
    from retry_loop_rel[of "evict_retry c1" c1 w1 e simsync 0] retry
    obtain rt where 2: "copied_count c2 = copied_count c1"
      "log w2 = log w1 @ rt" "length rt = length (evict_retry c1)"
      "evicted_count c2 = evicted_count c1 + retry_evictions rt"
      by (auto simp: retry_rel_def)
    from assms loop True False retry
    have r: "copied = copied_count c2" "evicted = evicted_count c2"
      "w' = logging (InfoSyncCompleted copied evicted) w2"
      by (auto simp: sync_to_target_and_evict_def)
    have "log w' = log w @ main @ (rt @ [InfoSyncCompleted copied evicted])"
      "copied = copies main"
      "evicted = first_evictions main + retry_evictions (rt @ [InfoSyncCompleted copied evicted])"
      using 1 2 r False by simp_all
    moreover have
      "retry_evictions (rt @ [InfoSyncCompleted copied evicted]) \<le> length (first_failures main)"
      using retry_evictions_le[of rt] 1(4) 2(3) by simp
    ultimately show ?thesis by blast
  qed
  then obtain rest where 3: "log w' = log w @ main @ rest" "copied = copies main"
    "evicted = first_evictions main + retry_evictions rest"
    "retry_evictions rest \<le> length (first_failures main)"
    by blast
  with le have "evicted \<le> copied" by simp
  moreover from 1(5) le 3
  have "\<exists>main rest. log w' = log w @ main @ rest \<and>
               copied = copies main \<and> retried main = [] \<and>
               first_evictions main + length (first_failures main) \<le> copies main \<and>
               evicted = first_evictions main + retry_evictions rest \<and>
               retry_evictions rest \<le> length (first_failures main)"
    by blast
  ultimately show ?thesis by blast
qed

theorem evicted_le_copied_witness:
  "snd (fst (sync_to_target_and_evict (retry_env\<lparr>evict_second := (\<lambda>k. EvictFailed)\<rparr>) all_stages
               example_cfg False scanned_world))
     \<le> fst (fst (sync_to_target_and_evict (retry_env\<lparr>evict_second := (\<lambda>k. EvictFailed)\<rparr>)
                    all_stages example_cfg False scanned_world)) \<and>
   fst (sync_to_target_and_evict (retry_env\<lparr>evict_second := (\<lambda>k. EvictFailed)\<rparr>) all_stages
          example_cfg False scanned_world) = (2, 1) \<and>
   run_copy all_stages \<and>
   (\<exists>main rest.
      log (snd (sync_to_target_and_evict (retry_env\<lparr>evict_second := (\<lambda>k. EvictFailed)\<rparr>)
                  all_stages example_cfg False scanned_world))
        = main @ rest \<and>
      copies main = 2 \<and> first_evictions main + retry_evictions rest = 1)"
proof -
  let ?e = "retry_env\<lparr>evict_second := (\<lambda>k. EvictFailed)\<rparr>"
  obtain copied evicted w' where
    run: "sync_to_target_and_evict ?e all_stages example_cfg False scanned_world
            = ((copied, evicted), w')"
    by (metis surj_pair)
  have rc: "run_copy all_stages" by code_simp
  have l0: "log scanned_world = []" by code_simp
  have res: "fst (sync_to_target_and_evict ?e all_stages example_cfg False scanned_world) = (2, 1)"
    by code_simp
  with run have ce: "copied = 2" "evicted = 1" by simp_all
  from evicted_le_copied[OF run] have "evicted \<le> copied" by blast
  moreover from evicted_le_copied[OF run] rc l0 ce
  obtain main rest where "log w' = main @ rest" "copies main = 2"
    "first_evictions main + retry_evictions rest = 1"
    by auto
  then have "\<exists>main rest. log w' = main @ rest \<and> copies main = 2 \<and>
          first_evictions main + retry_evictions rest = 1"
    by blast
  ultimately show ?thesis using run res rc by simp
qed


















text \<open>
  Claim C5. For every run of the copy/evict pipeline, once the cancellation flag is set no
  further candidate or retry entry is processed: the function polls the flag before each
  remaining item, including every item of the eviction retry list.

  The retry loop does not read the flag: whatever the flag is, it makes no read and logs
  one attempt for every path of its list. In the example the flag is set right after the
  first read and stays set; the only candidate is copied, its first eviction fails, and
  the retry loop still evicts it: the run returns (1, 1) having read the flag once, and
  the next read, by the worker, sees it set.
\<close>

theorem retry_ignores_stop_flag:
  "polls (snd (retry_loop e simsync k paths (c, w))) = polls w \<and>
   length (log (snd (retry_loop e simsync k paths (c, w)))) = length (log w) + length paths \<and>
   fst (sync_to_target_and_evict stop_after_first_read_env all_stages example_cfg False
          one_candidate_world) = (1, 1) \<and>
   log (snd (sync_to_target_and_evict stop_after_first_read_env all_stages example_cfg False
               one_candidate_world))
     = [InfoCopied ''/src/a.txt'' ''/dst/a.txt'', ErrorEvictFirst ''/dst/a.txt'',
        InfoEvictedRetry ''/dst/a.txt'', InfoSyncCompleted 1 1] \<and>
   polls (snd (sync_to_target_and_evict stop_after_first_read_env all_stages example_cfg False
                 one_candidate_world)) = 1 \<and>
   stop_requested_at stop_after_first_read_env 1"
proof -
  obtain c' w' where r: "retry_loop e simsync k paths (c, w) = (c', w')"
    by (cases "retry_loop e simsync k paths (c, w)")
  from retry_loop_rel[of paths c w e simsync k] r
  have "polls w' = polls w" "length (log w') = length (log w) + length paths"
    by (auto simp: retry_rel_def)
  with r have
    "polls (snd (retry_loop e simsync k paths (c, w))) = polls w"
    "length (log (snd (retry_loop e simsync k paths (c, w)))) = length (log w) + length paths"
    by simp_all
  moreover have
    "fst (sync_to_target_and_evict stop_after_first_read_env all_stages example_cfg False
          one_candidate_world) = (1, 1) \<and>
     log (snd (sync_to_target_and_evict stop_after_first_read_env all_stages example_cfg False
               one_candidate_world))
       = [InfoCopied ''/src/a.txt'' ''/dst/a.txt'', ErrorEvictFirst ''/dst/a.txt'',
          InfoEvictedRetry ''/dst/a.txt'', InfoSyncCompleted 1 1] \<and>
     polls (snd (sync_to_target_and_evict stop_after_first_read_env all_stages example_cfg False
                 one_candidate_world)) = 1 \<and>
     stop_requested_at stop_after_first_read_env 1"
    by code_simp
  ultimately show ?thesis by blast
qed

section \<open>The worker: proofs\<close>




section \<open>The check boxes: proofs\<close>

text \<open>
  Claim C9. After every checkbox event, the three stage flags satisfy evict-enabled implies
  copy-enabled implies scan-enabled; in particular enabling evict forces copy and scan on.

  The handler does not turn the scan stage on when the evict box is checked: an event of
  the evict box never changes the scan flag. From the initial state, unchecking Scan
  turns all three stages off, and checking Evict then turns evict and copy on and leaves
  scan off.
\<close>

theorem evict_forces_copy_not_scan:
  "run_scan (on_checkbox CbEvict s) = run_scan s \<and>
   click CbScan initial_flags =
     \<lparr>run_scan = False, run_copy = False, run_evict = False,
      cbScan = False, cbCopy = False, cbEvict = False\<rparr> \<and>
   click CbEvict (click CbScan initial_flags) =
     \<lparr>run_scan = False, run_copy = True, run_evict = True,
      cbScan = False, cbCopy = True, cbEvict = True\<rparr>"
  by (simp add: click_def on_checkbox_def initial_flags_def Let_def)

end
